theory Spec2Isabelle
  imports Main "HOL-Library.Sublist" "HOL-Library.AList"
begin

section \<open>Strings and paths\<close>

text \<open>
  Python strings are modelled as \<^typ>\<open>string\<close>: a list of characters, one \<^typ>\<open>char\<close> per
  code point (code points below 256). \<open>sub in s\<close> is \<^const>\<open>sublist\<close>,
  \<open>s.endswith(t)\<close> is \<^const>\<open>suffix\<close> and \<open>s.startswith(t)\<close> is \<^const>\<open>prefix\<close>.
\<close>

definition sq :: char where
  "sq = CHR 0x27"

definition dq :: char where
  "dq = CHR 0x22"

definition nl :: char where
  "nl = CHR 0x0A"

definition os_sep :: char where
  \<comment> \<open>\<open>os.sep\<close> of a POSIX system\<close>
  "os_sep = CHR ''/''"

definition replace_sep :: "string \<Rightarrow> string" where
  \<comment> \<open>\<open>s.replace(os.sep, '/')\<close>\<close>
  "replace_sep s = map (\<lambda>c. if c = os_sep then CHR ''/'' else c) s"

fun split_on :: "char \<Rightarrow> string \<Rightarrow> string list" where
  \<comment> \<open>\<open>s.split(c)\<close> for a one-character separator\<close>
  "split_on c [] = [[]]"
| "split_on c (x # xs) =
     (if x = c then [] # split_on c xs
      else (case split_on c xs of [] \<Rightarrow> [[x]] | w # ws \<Rightarrow> (x # w) # ws))"

fun join :: "string \<Rightarrow> string list \<Rightarrow> string" where
  \<comment> \<open>\<open>sep.join(parts)\<close>\<close>
  "join s [] = []"
| "join s [w] = w"
| "join s (w # v # ws) = w @ s @ join s (v # ws)"

definition path_root :: "string \<Rightarrow> string" where
  \<comment> \<open>the root that \<open>posixpath.splitroot\<close> finds: none, one slash, or exactly two slashes\<close>
  "path_root p =
     (if \<not> prefix ''/'' p then ''''
      else if prefix ''//'' p \<and> \<not> prefix ''///'' p then ''//''
      else ''/'')"

definition path_parts :: "string \<Rightarrow> string list" where
  \<comment> \<open>the segments \<open>pathlib\<close> keeps: empty segments and \<open>.\<close> are dropped\<close>
  "path_parts p = filter (\<lambda>x. x \<noteq> [] \<and> x \<noteq> ''.'') (split_on CHR ''/'' p)"

definition path_str :: "string \<Rightarrow> string" where
  \<comment> \<open>\<open>str(Path(p))\<close> on a POSIX system\<close>
  "path_str p =
     (let s = path_root p @ join ''/'' (path_parts p) in if s = [] then ''.'' else s)"

section \<open>The flattener object and its environment\<close>

text \<open>The fields of a \<open>ProjectFlattener\<close>, as \<open>__init__\<close> sets them.\<close>

record flattener =
  project_path :: string
  output_dir :: string
  tokens_per_file :: int
  prioritize_paths :: "string list"

text \<open>
  What a run takes from outside: the directory traversal, the file system and the
  tokenizer.
  \<^item> \<open>walk\<close>: the paths \<open>os.path.join(root, file)\<close> in the order \<open>os.walk\<close> yields them;
  \<^item> \<open>resolve\<close>: \<open>str(Path(p).resolve())\<close>, which depends on the working directory and on
    symbolic links;
  \<^item> \<open>relpath\<close>: \<open>os.path.relpath(p, project_path)\<close>;
  \<^item> \<open>read_file\<close>: the text of a file, \<open>None\<close> when opening or decoding it raises;
  \<^item> \<open>encode\<close>: the token count of the \<open>cl100k_base\<close> encoding, \<open>None\<close> when
    \<open>tiktoken\<close> raises;
  \<^item> \<open>write_ok\<close>: whether the \<open>n\<close>-th attempt of the run to open an output file for
    writing succeeds.
\<close>

record os_env =
  walk :: "string list"
  resolve :: "string \<Rightarrow> string"
  relpath :: "string \<Rightarrow> string"
  read_file :: "string \<Rightarrow> string option"
  encode :: "string \<Rightarrow> nat option"
  write_ok :: "nat \<Rightarrow> bool"

section \<open>Token estimator\<close>

definition estimate_tokens :: "os_env \<Rightarrow> string \<Rightarrow> nat" where
  "estimate_tokens e text =
     (case encode e text of Some n \<Rightarrow> n | None \<Rightarrow> length text div 4)"

section \<open>File selector\<close>

definition excluded_dirs :: "string list" where
  "excluded_dirs = [''node_modules'', ''build'', ''dist'', ''.next'', ''.git'', ''.cache'']"

definition extensions :: "string list" where
  "extensions = [''.ts'', ''.tsx'', ''.js'', ''.jsx'', ''.css'', ''.scss'', ''.json'']"

definition is_relevant_file :: "os_env \<Rightarrow> string \<Rightarrow> bool" where
  "is_relevant_file e file_path =
     (let normalized_path = replace_sep (resolve e file_path) in
      if list_ex (\<lambda>excluded. sublist (''/'' @ excluded @ ''/'') normalized_path
                             \<or> suffix (''/'' @ excluded) normalized_path) excluded_dirs
      then False
      else if \<not> list_ex (\<lambda>ext. suffix ext normalized_path) extensions then False
      else if suffix ''.test.ts'' normalized_path \<or> suffix ''.test.tsx'' normalized_path
      then False
      else True)"

section \<open>Priority ranker\<close>

definition priorities :: "(string \<times> int) list" where
  \<comment> \<open>the dictionary literal, in insertion order\<close>
  "priorities = [(''components'', 1), (''pages'', 2), (''features'', 3),
                 (''utils'', 4), (''types'', 5), (''styles'', 6)]"

fun table_priority :: "(string \<times> int) list \<Rightarrow> string \<Rightarrow> int" where
  \<comment> \<open>the \<open>for key, priority in priorities.items()\<close> loop and the \<open>return 99\<close> after it\<close>
  "table_priority [] normalized_path = 99"
| "table_priority ((key, priority) # rest) normalized_path =
     (if sublist (''/'' @ key @ ''/'') normalized_path then priority
      else table_priority rest normalized_path)"

definition get_file_priority :: "flattener \<Rightarrow> string \<Rightarrow> int" where
  "get_file_priority self file_path =
     (let normalized_path = replace_sep (path_str file_path) in
      if list_ex (\<lambda>p. sublist p normalized_path) (prioritize_paths self) then 0
      else table_priority priorities normalized_path)"

section \<open>Annotator\<close>

text \<open>
  \<open>process_imports\<close> is \<open>re.sub\<close> with the pattern
  \<^verbatim>\<open>(import.*from\s+['"])(.[^'"]*)(['"])\<close>. The functions below are the backtracking
  matcher of that pattern, written out: \<open>.\<close> is any character but a newline, \<open>.*\<close> is
  greedy and gives characters back from the longest candidate, \<open>\s+\<close> and \<open>[^'"]*\<close> are
  followed by a character outside their class and so take their maximal run. A match is
  returned as group 0 (the whole match), group 2 (the module specifier) and the text
  after the match.
\<close>

definition is_quote :: "char \<Rightarrow> bool" where
  "is_quote c = (c = sq \<or> c = dq)"

definition is_space :: "char \<Rightarrow> bool" where
  \<comment> \<open>the class \<open>\s\<close> of a \<open>str\<close> pattern, on the code points below 256\<close>
  "is_space c = (c \<in> set [CHR 0x09, CHR 0x0A, CHR 0x0B, CHR 0x0C, CHR 0x0D, CHR 0x1C,
                            CHR 0x1D, CHR 0x1E, CHR 0x1F, CHR 0x20, CHR 0x85, CHR 0xA0])"

definition specifier_match :: "string \<Rightarrow> (string \<times> string \<times> string) option" where
  \<comment> \<open>\<^verbatim>\<open>(.[^'"]*)(['"])\<close> at the head of \<open>s\<close>: group 2, group 3 and the text after\<close>
  "specifier_match s =
     (case s of
        [] \<Rightarrow> None
      | c # t \<Rightarrow>
          if c = nl then None
          else (case dropWhile (\<lambda>x. \<not> is_quote x) t of
                  [] \<Rightarrow> None
                | q # rest \<Rightarrow> Some (c # takeWhile (\<lambda>x. \<not> is_quote x) t, [q], rest)))"

definition from_match :: "string \<Rightarrow> (string \<times> string \<times> string) option" where
  \<comment> \<open>\<^verbatim>\<open>from\s+['"]\<close> and the specifier at the head of \<open>s\<close>: the text matched, group 2 and
      the text after\<close>
  "from_match s =
     (if \<not> prefix ''from'' s then None
      else let t = drop 4 s; ws = takeWhile is_space t in
        if ws = [] then None
        else (case dropWhile is_space t of
                [] \<Rightarrow> None
              | q # v \<Rightarrow>
                  if \<not> is_quote q then None
                  else (case specifier_match v of
                          None \<Rightarrow> None
                        | Some (g2, g3, rest) \<Rightarrow> Some (''from'' @ ws @ [q] @ g2 @ g3, g2, rest))))"

fun dotstar_match :: "string \<Rightarrow> (string \<times> string \<times> string) option" where
  \<comment> \<open>\<^verbatim>\<open>.*\<close> and then \<open>from_match\<close>: the longest run of \<open>.*\<close> that lets the rest match\<close>
  "dotstar_match [] = from_match []"
| "dotstar_match (c # t) =
     (if c = nl then from_match (c # t)
      else (case dotstar_match t of
              Some (m, g2, rest) \<Rightarrow> Some (c # m, g2, rest)
            | None \<Rightarrow> from_match (c # t)))"

definition match_here :: "string \<Rightarrow> (string \<times> string \<times> string) option" where
  \<comment> \<open>the whole pattern at the head of \<open>s\<close>: group 0, group 2 and the text after\<close>
  "match_here s =
     (if prefix ''import'' s
      then (case dotstar_match (drop 6 s) of
              None \<Rightarrow> None
            | Some (m, g2, rest) \<Rightarrow> Some (''import'' @ m, g2, rest))
      else None)"

fun search :: "string \<Rightarrow> (string \<times> string \<times> string \<times> string) option" where
  \<comment> \<open>the leftmost match: the text before it, group 0, group 2 and the text after\<close>
  "search [] = None"
| "search (c # t) =
     (case match_here (c # t) of
        Some (g0, g2, rest) \<Rightarrow> Some ([], g0, g2, rest)
      | None \<Rightarrow> (case search t of
                   None \<Rightarrow> None
                 | Some (pre, g0, g2, rest) \<Rightarrow> Some (c # pre, g0, g2, rest)))"

definition replace_import :: "string \<Rightarrow> string \<Rightarrow> string" where
  \<comment> \<open>the callback: \<open>g0\<close> is \<open>match.group(0)\<close>, \<open>import_path\<close> is \<open>match.group(2)\<close>\<close>
  "replace_import g0 import_path =
     (if prefix ''.'' import_path
      then ''// Original import: '' @ g0 @ [nl]
           @ ''// Flattened version would be: import from '' @ [sq] @ import_path @ [sq]
      else g0)"

lemma specifier_match_decomp:
  "specifier_match s = Some (g2, g3, rest) \<Longrightarrow> s = g2 @ g3 @ rest \<and> g2 \<noteq> [] \<and> length g3 = 1"
  unfolding specifier_match_def
  by (auto split: list.splits if_splits)
     (metis takeWhile_dropWhile_id)

lemma from_match_decomp:
  "from_match s = Some (m, g2, rest) \<Longrightarrow> s = m @ rest \<and> prefix ''from'' m"
  unfolding from_match_def Let_def
  apply (auto split: list.splits if_splits option.splits dest!: specifier_match_decomp
              simp: prefix_def)
  apply (metis takeWhile_dropWhile_id)
  done

lemma dotstar_match_decomp:
  "dotstar_match s = Some (m, g2, rest) \<Longrightarrow> s = m @ rest \<and> length rest < length s"
  by (induction s arbitrary: m)
     (auto split: if_splits option.splits dest!: from_match_decomp simp: prefix_def)

lemma match_here_decomp:
  "match_here s = Some (g0, g2, rest) \<Longrightarrow>
     s = g0 @ rest \<and> prefix ''import'' g0 \<and> length rest < length s"
  unfolding match_here_def
  by (auto split: if_splits option.splits dest!: dotstar_match_decomp simp: prefix_def)

lemma search_decomp:
  "search s = Some (pre, g0, g2, rest) \<Longrightarrow>
     s = pre @ g0 @ rest \<and> prefix ''import'' g0 \<and> length rest < length s"
proof (induction s arbitrary: pre)
  case Nil
  then show ?case by simp
next
  case (Cons c t)
  show ?case
  proof (cases "match_here (c # t)")
    case None
    with Cons.prems obtain pre' where s: "search t = Some (pre', g0, g2, rest)" and p: "pre = c # pre'"
      by (auto split: option.splits)
    from Cons.IH [OF s] p show ?thesis by simp
  next
    case (Some r)
    with Cons.prems have "match_here (c # t) = Some (g0, g2, rest)" and "pre = []"
      by (auto split: prod.splits)
    then show ?thesis using match_here_decomp by fastforce
  qed
qed

function process_imports :: "string \<Rightarrow> string \<Rightarrow> string" where
  \<comment> \<open>\<open>re.sub(import_pattern, replace_import, content)\<close>: every match, from the left,
      none overlapping, is replaced by what the callback returns\<close>
  "process_imports content file_path =
     (case search content of
        None \<Rightarrow> content
      | Some (pre, g0, g2, rest) \<Rightarrow> pre @ replace_import g0 g2 @ process_imports rest file_path)"
  by pat_completeness auto
termination
  by (relation "measure (\<lambda>(content, file_path). length content)")
     (auto dest: search_decomp)

declare process_imports.simps [simp del]

section \<open>Output files\<close>

text \<open>
  Opening or decoding a source file can raise, and so can opening an output file. The
  files a run has written are kept as a dictionary from path to content, with the number
  of attempts to open a file for writing so far; an attempt that \<open>write_ok\<close> refuses
  raises and leaves the files as they are. The content of a chunk file is its text; the
  content of \<open>manifest.json\<close> is the dictionary that \<open>json.dump\<close> is given. What a source
  file holds does not change during a run: the scan is over before the first write, and
  the chunk files end in \<open>.txt\<close>, which the selector rejects.
\<close>

datatype error = ReadError | WriteError

record manifest_entry =
  files :: "string list"
  file_count :: nat

record manifest =
  manifest_project_path :: string
  total_chunks :: nat
  manifest_chunks :: "(string \<times> manifest_entry) list"

datatype file_content = Text string | Json manifest

record fs =
  written :: "(string \<times> file_content) list"
  attempts :: nat

definition path_join :: "string \<Rightarrow> string \<Rightarrow> string" where
  \<comment> \<open>\<open>os.path.join(a, b)\<close> on a POSIX system\<close>
  "path_join a b =
     (if prefix ''/'' b then b
      else if a = [] \<or> suffix ''/'' a then a @ b
      else a @ ''/'' @ b)"

definition open_write :: "os_env \<Rightarrow> string \<Rightarrow> file_content \<Rightarrow> fs \<Rightarrow> (error + unit) \<times> fs" where
  \<comment> \<open>\<open>with open(path, 'w') as out:\<close> and the writes of \<open>content\<close> in its body\<close>
  "open_write e path content d =
     (if write_ok e (attempts d)
      then (Inr (), d\<lparr>written := AList.update path content (written d),
                       attempts := Suc (attempts d)\<rparr>)
      else (Inl WriteError, d\<lparr>attempts := Suc (attempts d)\<rparr>))"

section \<open>Chunk writer\<close>

definition chunk_text :: "string \<Rightarrow> (string \<times> string) list \<Rightarrow> string" where
  \<comment> \<open>what \<open>write_chunk\<close> writes, in the order of its \<open>out.write\<close> calls\<close>
  "chunk_text chunk_file chunk_contents =
     ''# Chunk: '' @ chunk_file @ [nl, nl]
     @ ''## Contained Files:'' @ [nl]
     @ concat (map (\<lambda>(rel_path, _). ''- '' @ rel_path @ [nl]) chunk_contents)
     @ [nl] @ replicate 80 CHR ''='' @ [nl, nl]
     @ concat (map (\<lambda>(_, content). content) chunk_contents)"

definition write_chunk ::
  "flattener \<Rightarrow> os_env \<Rightarrow> string \<Rightarrow> (string \<times> string) list \<Rightarrow> fs \<Rightarrow> (error + unit) \<times> fs" where
  "write_chunk self e chunk_file chunk_contents d =
     (let output_path = path_join (output_dir self) chunk_file
      in open_write e output_path (Text (chunk_text chunk_file chunk_contents)) d)"

section \<open>Manifest builder\<close>

definition build_manifest :: "flattener \<Rightarrow> (string \<times> string list) list \<Rightarrow> manifest" where
  \<comment> \<open>the dictionary \<open>create_chunk_manifest\<close> builds\<close>
  "build_manifest self chunks =
     \<lparr>manifest_project_path = project_path self,
      total_chunks = length chunks,
      manifest_chunks =
        map (\<lambda>(chunk_file, fls). (chunk_file, \<lparr>files = fls, file_count = length fls\<rparr>)) chunks\<rparr>"

definition create_chunk_manifest ::
  "flattener \<Rightarrow> os_env \<Rightarrow> (string \<times> string list) list \<Rightarrow> fs \<Rightarrow> (error + string) \<times> fs" where
  "create_chunk_manifest self e chunks d =
     (let manifest_path = path_join (output_dir self) ''manifest.json''
      in case open_write e manifest_path (Json (build_manifest self chunks)) d of
           (Inl err, d') \<Rightarrow> (Inl err, d')
         | (Inr _, d') \<Rightarrow> (Inr manifest_path, d'))"

section \<open>Chunk packer\<close>

definition digit_char :: "nat \<Rightarrow> char" where
  "digit_char d = ''0123456789'' ! d"

function str_nat :: "nat \<Rightarrow> string" where
  \<comment> \<open>the decimal digits of \<open>n\<close>, as an f-string formats an \<open>int\<close>\<close>
  "str_nat n = (if n < 10 then [digit_char n] else str_nat (n div 10) @ [digit_char (n mod 10)])"
  by pat_completeness auto
termination
  by (relation "measure id") auto

declare str_nat.simps [simp del]

definition chunk_name :: "nat \<Rightarrow> string" where
  \<comment> \<open>\<open>f"chunk_{chunk_number}.txt"\<close>\<close>
  "chunk_name n = ''chunk_'' @ str_nat n @ ''.txt''"

text \<open>
  The variables of \<open>flatten\<close>'s loop, the files written and the warnings printed so far
  (the progress bar and the other messages are left out; printing is taken not to raise).
  \<open>flushed\<close> is a history variable that the code does not have: the arguments of every
  \<open>write_chunk\<close> call that returned, in order. Nothing in the run reads it.
\<close>

record loop_state =
  current_chunk :: "(string \<times> string) list"
  current_token_count :: nat
  chunk_number :: nat
  chunks :: "(string \<times> string list) list"
  disk :: fs
  warnings :: "(string \<times> error) list"
  flushed :: "(string \<times> (string \<times> string) list) list"

definition init_state :: loop_state where
  "init_state =
     \<lparr>current_chunk = [], current_token_count = 0, chunk_number = 1, chunks = [],
      disk = \<lparr>written = [], attempts = 0\<rparr>, warnings = [], flushed = []\<rparr>"

definition file_banner :: "string \<Rightarrow> string" where
  \<comment> \<open>the f-string of \<open>file_content\<close> up to \<open>processed_content\<close>\<close>
  "file_banner rel_path =
     [nl, nl] @ replicate 80 CHR ''#'' @ [nl] @ ''# File: '' @ rel_path @ [nl]
     @ replicate 80 CHR ''#'' @ [nl, nl]"

definition flush_in_loop :: "flattener \<Rightarrow> os_env \<Rightarrow> loop_state \<Rightarrow> (error \<times> loop_state) + loop_state" where
  \<comment> \<open>the body of the \<open>if\<close> in the loop (lines 148 to 154): write the chunk, record it,
      start a new one\<close>
  "flush_in_loop self e st =
     (let chunk_file = chunk_name (chunk_number st)
      in case write_chunk self e chunk_file (current_chunk st) (disk st) of
           (Inl err, d) \<Rightarrow> Inl (err, st\<lparr>disk := d\<rparr>)
         | (Inr _, d) \<Rightarrow>
             Inr (st\<lparr>chunks := AList.update chunk_file (map fst (current_chunk st)) (chunks st),
                     current_chunk := [],
                     current_token_count := 0,
                     chunk_number := chunk_number st + 1,
                     disk := d,
                     flushed := flushed st @ [(chunk_file, current_chunk st)]\<rparr>))"

definition append_file :: "loop_state \<Rightarrow> string \<Rightarrow> string \<Rightarrow> nat \<Rightarrow> loop_state" where
  \<comment> \<open>lines 156 and 157\<close>
  "append_file st rel_path file_content file_tokens =
     st\<lparr>current_chunk := current_chunk st @ [(rel_path, file_content)],
        current_token_count := current_token_count st + file_tokens\<rparr>"

definition process_file :: "flattener \<Rightarrow> os_env \<Rightarrow> loop_state \<Rightarrow> string \<Rightarrow> loop_state" where
  \<comment> \<open>one iteration of the loop over \<open>all_files\<close> (lines 137 to 162); the
      \<open>except Exception\<close> clause catches what the body of the \<open>try\<close> raises, the failed read
      and the failed \<open>write_chunk\<close> alike, and prints a warning\<close>
  "process_file self e st file_path =
     (let rel_path = relpath e file_path
      in case read_file e file_path of
           None \<Rightarrow> st\<lparr>warnings := warnings st @ [(rel_path, ReadError)]\<rparr>
         | Some content \<Rightarrow>
             let processed_content = process_imports content file_path;
                 file_content = file_banner rel_path @ processed_content;
                 file_tokens = estimate_tokens e file_content
             in if int (current_token_count st + file_tokens) > tokens_per_file self
                   \<and> current_chunk st \<noteq> []
                then (case flush_in_loop self e st of
                        Inl (err, st') \<Rightarrow> st'\<lparr>warnings := warnings st' @ [(rel_path, err)]\<rparr>
                      | Inr st' \<Rightarrow> append_file st' rel_path file_content file_tokens)
                else append_file st rel_path file_content file_tokens)"

definition final_flush :: "flattener \<Rightarrow> os_env \<Rightarrow> loop_state \<Rightarrow> (error \<times> loop_state) + loop_state" where
  \<comment> \<open>the \<open>if current_chunk:\<close> after the loop (lines 164 to 168), outside the \<open>try\<close>\<close>
  "final_flush self e st =
     (if current_chunk st \<noteq> []
      then (let chunk_file = chunk_name (chunk_number st)
            in case write_chunk self e chunk_file (current_chunk st) (disk st) of
                 (Inl err, d) \<Rightarrow> Inl (err, st\<lparr>disk := d\<rparr>)
               | (Inr _, d) \<Rightarrow>
                   Inr (st\<lparr>chunks := AList.update chunk_file (map fst (current_chunk st)) (chunks st),
                           disk := d,
                           flushed := flushed st @ [(chunk_file, current_chunk st)]\<rparr>))
      else Inr st)"

definition all_files :: "os_env \<Rightarrow> string list" where
  \<comment> \<open>the files the scan keeps, in the order of the traversal\<close>
  "all_files e = filter (is_relevant_file e) (walk e)"

definition sorted_files :: "flattener \<Rightarrow> os_env \<Rightarrow> string list" where
  \<comment> \<open>\<open>all_files.sort(key=self.get_file_priority)\<close>: a stable sort\<close>
  "sorted_files self e = sort_key (get_file_priority self) (all_files e)"

definition run_loop :: "flattener \<Rightarrow> os_env \<Rightarrow> string list \<Rightarrow> loop_state" where
  \<comment> \<open>the loop, from the initial values of its variables, over the files \<open>fls\<close>\<close>
  "run_loop self e fls = foldl (process_file self e) init_state fls"

definition flatten :: "flattener \<Rightarrow> os_env \<Rightarrow> (error \<times> loop_state) + loop_state" where
  \<comment> \<open>\<open>Inl\<close>: the exception that escapes and the state it leaves; \<open>Inr\<close>: the final state,
      whose \<open>chunks\<close> is the dictionary returned\<close>
  "flatten self e =
     (case final_flush self e (run_loop self e (sorted_files self e)) of
        Inl (err, st) \<Rightarrow> Inl (err, st)
      | Inr st \<Rightarrow>
          (case create_chunk_manifest self e (chunks st) (disk st) of
             (Inl err, d) \<Rightarrow> Inl (err, st\<lparr>disk := d\<rparr>)
           | (Inr _, d) \<Rightarrow> Inr (st\<lparr>disk := d\<rparr>)))"

section \<open>Notions used in the statements\<close>



definition entry_of :: "os_env \<Rightarrow> string \<Rightarrow> string \<Rightarrow> string \<times> string" where
  \<comment> \<open>the pair \<open>(rel_path, file_content)\<close> the loop builds for a file with text \<open>content\<close>\<close>
  "entry_of e file_path content =
     (relpath e file_path, file_banner (relpath e file_path) @ process_imports content file_path)"

definition chunk_cost :: "os_env \<Rightarrow> (string \<times> string) list \<Rightarrow> nat" where
  \<comment> \<open>the estimated tokens of the entries of a chunk, added up\<close>
  "chunk_cost e chunk = sum_list (map (\<lambda>(rel_path, content). estimate_tokens e content) chunk)"

definition oversize :: "flattener \<Rightarrow> os_env \<Rightarrow> string \<times> string \<Rightarrow> bool" where
  \<comment> \<open>an entry whose own estimated cost exceeds the budget\<close>
  "oversize self e x \<longleftrightarrow> tokens_per_file self < int (estimate_tokens e (snd x))"

definition chunk_ok :: "flattener \<Rightarrow> os_env \<Rightarrow> (string \<times> string) list \<Rightarrow> bool" where
  \<comment> \<open>a chunk of two or more entries is within the budget, and a chunk with an oversize
      entry has no other entry\<close>
  "chunk_ok self e c \<longleftrightarrow>
     (2 \<le> length c \<longrightarrow> int (chunk_cost e c) \<le> tokens_per_file self)
     \<and> (\<forall>x \<in> set c. oversize self e x \<longrightarrow> c = [x])"

definition loop_inv :: "flattener \<Rightarrow> os_env \<Rightarrow> loop_state \<Rightarrow> bool" where
  "loop_inv self e st \<longleftrightarrow>
     current_token_count st = chunk_cost e (current_chunk st)
     \<and> chunk_ok self e (current_chunk st)
     \<and> (\<forall>(n, c) \<in> set (flushed st). c \<noteq> [] \<and> chunk_ok self e c)
     \<and> 1 \<le> chunk_number st
     \<and> map fst (flushed st) = map chunk_name [1..<chunk_number st]
     \<and> chunks st = map (\<lambda>(n, c). (n, map fst c)) (flushed st)
     \<and> written (disk st) =
         map (\<lambda>(n, c). (path_join (output_dir self) n, Text (chunk_text n c))) (flushed st)"

definition readable :: "os_env \<Rightarrow> string \<Rightarrow> bool" where
  "readable e file_path \<longleftrightarrow> read_file e file_path \<noteq> None"

definition packed_entry :: "os_env \<Rightarrow> string \<Rightarrow> string \<times> string" where
  \<comment> \<open>the entry of a file that can be read\<close>
  "packed_entry e file_path =
     (case read_file e file_path of
        Some content \<Rightarrow> entry_of e file_path content
      | None \<Rightarrow> (relpath e file_path, []))"

definition entries :: "loop_state \<Rightarrow> (string \<times> string) list" where
  \<comment> \<open>every entry appended so far: the chunks written and then the current one\<close>
  "entries st = concat (map snd (flushed st)) @ current_chunk st"

text \<open>What holds of the state a run ends with, whether it returns or raises.\<close>

definition final_inv :: "flattener \<Rightarrow> os_env \<Rightarrow> loop_state \<Rightarrow> bool" where
  "final_inv self e st \<longleftrightarrow>
     (\<forall>(n, c) \<in> set (flushed st). c \<noteq> [] \<and> chunk_ok self e c)
     \<and> map fst (flushed st) = map chunk_name [1..<Suc (length (flushed st))]
     \<and> chunks st = map (\<lambda>(n, c). (n, map fst c)) (flushed st)"

definition disk_of_flushed ::
  "flattener \<Rightarrow> (string \<times> (string \<times> string) list) list \<Rightarrow> (string \<times> file_content) list" where
  \<comment> \<open>the chunk files a sequence of \<open>write_chunk\<close> calls leaves\<close>
  "disk_of_flushed self fl =
     map (\<lambda>(n, c). (path_join (output_dir self) n, Text (chunk_text n c))) fl"

definition manifest_path :: "flattener \<Rightarrow> string" where
  "manifest_path self = path_join (output_dir self) ''manifest.json''"

section \<open>Concrete inputs\<close>

definition plain_flattener :: flattener where
  \<comment> \<open>a flattener with the default budget and no prioritized paths\<close>
  "plain_flattener =
     \<lparr>project_path = ''/p'', output_dir = ''out'', tokens_per_file = 150000,
      prioritize_paths = []\<rparr>"


definition small_flattener :: flattener where
  \<comment> \<open>a flattener with a budget of 50 tokens\<close>
  "small_flattener =
     \<lparr>project_path = ''/p'', output_dir = ''out'', tokens_per_file = 50, prioritize_paths = []\<rparr>"

definition two_file_env :: os_env where
  \<comment> \<open>the project \<open>/p\<close> with the files \<open>a.ts\<close> and \<open>b.ts\<close>, no tokenizer, no write error\<close>
  "two_file_env =
     \<lparr>walk = [''/p/a.ts'', ''/p/b.ts''], resolve = (\<lambda>p. p), relpath = drop 3,
      read_file = (\<lambda>p. if p = ''/p/a.ts'' then Some ''x''
                        else if p = ''/p/b.ts'' then Some ''y'' else None),
      encode = (\<lambda>s. None), write_ok = (\<lambda>n. True)\<rparr>"

definition flaky_env :: os_env where
  \<comment> \<open>the same project; the first attempt to open an output file raises, the later ones
      succeed\<close>
  "flaky_env = two_file_env\<lparr>write_ok := (\<lambda>n. n \<noteq> 0)\<rparr>"

definition big_file_env :: os_env where
  \<comment> \<open>as \<open>flaky_env\<close>, with 40 characters in \<open>b.ts\<close>: its entry alone costs 54 tokens\<close>
  "big_file_env =
     flaky_env\<lparr>read_file := (\<lambda>p. if p = ''/p/a.ts'' then Some ''x''
                                  else if p = ''/p/b.ts'' then Some (replicate 40 CHR ''y'')
                                  else None)\<rparr>"

definition three_file_env :: os_env where
  \<comment> \<open>two files under \<open>utils\<close> found before and after one under \<open>components\<close>\<close>
  "three_file_env =
     \<lparr>walk = [''/p/src/utils/b.ts'', ''/p/src/components/a.ts'', ''/p/src/utils/a.ts''],
      resolve = (\<lambda>p. p), relpath = drop 3, read_file = (\<lambda>p. Some ''x''),
      encode = (\<lambda>s. None), write_ok = (\<lambda>n. True)\<rparr>"


section \<open>The file selector rejects excluded directories, foreign extensions and tests\<close>






section \<open>The priority ranker\<close>



lemma table_priority_none:
  "\<forall>key \<in> fst ` set tbl. \<not> sublist (''/'' @ key @ ''/'') n \<Longrightarrow> table_priority tbl n = 99"
  by (induction tbl n rule: table_priority.induct) auto



text \<open>
  Claim C9. When the prioritize list contains the empty string, every path has priority 0:
  the empty string occurs in every string, so neither the table nor the default 99 is
  reached.
\<close>

theorem empty_prioritize_string:
  "'''' \<in> set (prioritize_paths self) \<Longrightarrow> get_file_priority self p = 0"
  by (auto simp: get_file_priority_def Let_def list_ex_iff)

theorem empty_prioritize_string_witness:
  "'''' \<in> set (prioritize_paths (plain_flattener\<lparr>prioritize_paths := ['''']\<rparr>))
   \<and> get_file_priority (plain_flattener\<lparr>prioritize_paths := ['''']\<rparr>) ''src/utils/a.ts'' = 0"
  using empty_prioritize_string [of "plain_flattener\<lparr>prioritize_paths := ['''']\<rparr>" "''src/utils/a.ts''"]
  by simp

lemma sublist_slash_skip:
  "CHR ''/'' \<notin> set key \<Longrightarrow> sublist (CHR ''/'' # xs) (key @ ys) = sublist (CHR ''/'' # xs) ys"
  by (induction key) (auto simp: sublist_Cons_right)

text \<open>
  Claim C10, as stated, fails: a relative path whose first segment is a table name can
  still get a table value from a later segment. \<open>components/utils/Foo.ts\<close> starts with the
  table name \<open>components\<close> and has priority 4, not 99.
\<close>

theorem first_segment_counterexample:
  "prioritize_paths plain_flattener = []
   \<and> prefix ''components/'' ''components/utils/Foo.ts''
   \<and> get_file_priority plain_flattener ''components/utils/Foo.ts'' = 4"
  by code_simp

text \<open>
  Claim C10, amended. With an empty prioritize list, a path whose normalized form is a table
  name, a slash and a rest, with no separator before the name, and in which no table name
  occurs as a later \<open>/name/\<close> segment, has priority 99: the leading segment is never
  matched, since the table names are looked for with a slash on both sides.
\<close>

theorem first_segment_unmatched:
  assumes "prioritize_paths self = []"
    and "key \<in> fst ` set priorities"
    and "replace_sep (path_str p) = key @ ''/'' @ rest"
    and "\<forall>k \<in> fst ` set priorities. \<not> sublist (''/'' @ k @ ''/'') (''/'' @ rest)"
  shows "get_file_priority self p = 99"
proof -
  from assms(2) have k: "CHR ''/'' \<notin> set key"
    by (auto simp: priorities_def)
  have "\<not> sublist (''/'' @ k @ ''/'') (key @ ''/'' @ rest)" if "k \<in> fst ` set priorities" for k
    using assms(4) that sublist_slash_skip [OF k, of "k @ ''/''" "''/'' @ rest"] by auto
  then have "table_priority priorities (key @ ''/'' @ rest) = 99"
    by (intro table_priority_none) blast
  with assms(1,3) show ?thesis
    by (simp add: get_file_priority_def Let_def)
qed

theorem first_segment_unmatched_witness:
  "prioritize_paths plain_flattener = []
   \<and> ''components'' \<in> fst ` set priorities
   \<and> replace_sep (path_str ''components/Foo.ts'') = ''components'' @ ''/'' @ ''Foo.ts''
   \<and> get_file_priority plain_flattener ''components/Foo.ts'' = 99"
proof -
  have a: "prioritize_paths plain_flattener = []"
    by (simp add: plain_flattener_def)
  have b: "''components'' \<in> fst ` set priorities"
    by (simp add: priorities_def)
  have c: "replace_sep (path_str ''components/Foo.ts'') = ''components'' @ ''/'' @ ''Foo.ts''"
    by code_simp
  have d: "\<forall>k \<in> fst ` set priorities. \<not> sublist (''/'' @ k @ ''/'') (''/'' @ ''Foo.ts'')"
    by (simp add: priorities_def sublist_code)
  show ?thesis by (intro conjI a b c first_segment_unmatched [OF a b c d])
qed

section \<open>The annotator replaces relative imports by comments\<close>
















section \<open>The chunk packer\<close>

lemma chunk_cost_simps [simp]:
  "chunk_cost e [] = 0"
  "chunk_cost e (c @ [x]) = chunk_cost e c + estimate_tokens e (snd x)"
  "chunk_cost e [x] = estimate_tokens e (snd x)"
  by (simp_all add: chunk_cost_def split: prod.splits)

lemma digit_char_inj: "a < 10 \<Longrightarrow> b < 10 \<Longrightarrow> digit_char a = digit_char b \<Longrightarrow> a = b"
proof -
  assume a: "a < 10" and b: "b < 10" and eq: "digit_char a = digit_char b"
  have d: "distinct ''0123456789''" by simp
  from a b have "a < length ''0123456789''" "b < length ''0123456789''" by simp_all
  with d eq show "a = b"
    unfolding digit_char_def by (simp only: nth_eq_iff_index_eq)
qed

lemma str_nat_nonempty: "str_nat n \<noteq> []"
  by (subst str_nat.simps) simp

lemma str_nat_inj: "str_nat a = str_nat b \<Longrightarrow> a = b"
proof (induction a arbitrary: b rule: str_nat.induct)
  case (1 n)
  show ?case
  proof (cases "n < 10")
    case True
    then have n: "str_nat n = [digit_char n]"
      by (subst str_nat.simps) simp
    show ?thesis
    proof (cases "b < 10")
      case b: True
      then have "str_nat b = [digit_char b]"
        by (subst str_nat.simps) simp
      with n "1.prems" True b show ?thesis
        using digit_char_inj by simp
    next
      case b: False
      then have "str_nat b = str_nat (b div 10) @ [digit_char (b mod 10)]"
        by (subst str_nat.simps) simp
      with n "1.prems" str_nat_nonempty [of "b div 10"] show ?thesis
        by (cases "str_nat (b div 10)") simp_all
    qed
  next
    case False
    then have n: "str_nat n = str_nat (n div 10) @ [digit_char (n mod 10)]"
      by (subst str_nat.simps) simp
    show ?thesis
    proof (cases "b < 10")
      case b: True
      then have "str_nat b = [digit_char b]"
        by (subst str_nat.simps) simp
      with n "1.prems" str_nat_nonempty [of "n div 10"] show ?thesis
        by (cases "str_nat (n div 10)") simp_all
    next
      case b: False
      then have "str_nat b = str_nat (b div 10) @ [digit_char (b mod 10)]"
        by (subst str_nat.simps) simp
      with n "1.prems" have q: "str_nat (n div 10) = str_nat (b div 10)"
        and r: "digit_char (n mod 10) = digit_char (b mod 10)"
        by simp_all
      from "1.IH" [OF False q] have "n div 10 = b div 10" .
      moreover from r have "n mod 10 = b mod 10"
        using digit_char_inj [of "n mod 10" "b mod 10"] by simp
      ultimately show ?thesis
        by (metis div_mult_mod_eq)
    qed
  qed
qed

lemma chunk_name_inj: "chunk_name a = chunk_name b \<longleftrightarrow> a = b"
  by (auto simp: chunk_name_def dest: str_nat_inj)

lemma chunk_path_inj:
  "path_join d (chunk_name a) = path_join d (chunk_name b) \<longleftrightarrow> a = b"
  by (auto simp: path_join_def chunk_name_def dest: str_nat_inj)

lemma update_fresh: "k \<notin> fst ` set al \<Longrightarrow> AList.update k v al = al @ [(k, v)]"
  by (induction al) auto

lemma process_file_cases [case_names read_error append flush write_error]:
  obtains
    (read_error) "read_file e f = None"
      "process_file self e st f = st\<lparr>warnings := warnings st @ [(relpath e f, ReadError)]\<rparr>"
  | (append) content where "read_file e f = Some content"
      "\<not> (tokens_per_file self
            < int (current_token_count st + estimate_tokens e (snd (entry_of e f content)))
          \<and> current_chunk st \<noteq> [])"
      "process_file self e st f =
         st\<lparr>current_chunk := current_chunk st @ [entry_of e f content],
            current_token_count :=
              current_token_count st + estimate_tokens e (snd (entry_of e f content))\<rparr>"
  | (flush) content where "read_file e f = Some content"
      "tokens_per_file self
         < int (current_token_count st + estimate_tokens e (snd (entry_of e f content)))"
      "current_chunk st \<noteq> []"
      "write_ok e (attempts (disk st))"
      "process_file self e st f =
         st\<lparr>chunks := AList.update (chunk_name (chunk_number st)) (map fst (current_chunk st))
                       (chunks st),
            current_chunk := [entry_of e f content],
            current_token_count := estimate_tokens e (snd (entry_of e f content)),
            chunk_number := chunk_number st + 1,
            disk := (disk st)
              \<lparr>written := AList.update (path_join (output_dir self) (chunk_name (chunk_number st)))
                           (Text (chunk_text (chunk_name (chunk_number st)) (current_chunk st)))
                           (written (disk st)),
               attempts := Suc (attempts (disk st))\<rparr>,
            flushed := flushed st @ [(chunk_name (chunk_number st), current_chunk st)]\<rparr>"
  | (write_error) content where "read_file e f = Some content"
      "tokens_per_file self
         < int (current_token_count st + estimate_tokens e (snd (entry_of e f content)))"
      "current_chunk st \<noteq> []"
      "\<not> write_ok e (attempts (disk st))"
      "process_file self e st f =
         st\<lparr>disk := (disk st)\<lparr>attempts := Suc (attempts (disk st))\<rparr>,
            warnings := warnings st @ [(relpath e f, WriteError)]\<rparr>"
proof (cases "read_file e f")
  case None
  then have "process_file self e st f = st\<lparr>warnings := warnings st @ [(relpath e f, ReadError)]\<rparr>"
    by (simp add: process_file_def)
  with None show ?thesis by (rule read_error)
next
  case (Some content)
  let ?t = "estimate_tokens e (snd (entry_of e f content))"
  show ?thesis
  proof (cases "tokens_per_file self < int (current_token_count st + ?t) \<and> current_chunk st \<noteq> []")
    case False
    with Some have "process_file self e st f =
         st\<lparr>current_chunk := current_chunk st @ [entry_of e f content],
            current_token_count := current_token_count st + ?t\<rparr>"
      by (auto simp: process_file_def append_file_def entry_of_def Let_def)
    with Some False show ?thesis by (rule append)
  next
    case True
    then have gt: "tokens_per_file self < int (current_token_count st + ?t)"
      and ne: "current_chunk st \<noteq> []"
      by simp_all
    show ?thesis
    proof (cases "write_ok e (attempts (disk st))")
      case ok: True
      with Some True have eq: "process_file self e st f =
         st\<lparr>chunks := AList.update (chunk_name (chunk_number st)) (map fst (current_chunk st))
                       (chunks st),
            current_chunk := [entry_of e f content],
            current_token_count := ?t,
            chunk_number := chunk_number st + 1,
            disk := (disk st)
              \<lparr>written := AList.update (path_join (output_dir self) (chunk_name (chunk_number st)))
                           (Text (chunk_text (chunk_name (chunk_number st)) (current_chunk st)))
                           (written (disk st)),
               attempts := Suc (attempts (disk st))\<rparr>,
            flushed := flushed st @ [(chunk_name (chunk_number st), current_chunk st)]\<rparr>"
        by (simp add: process_file_def append_file_def entry_of_def Let_def flush_in_loop_def
            write_chunk_def open_write_def)
      from Some gt ne ok eq show ?thesis by (rule flush)
    next
      case bad: False
      with Some True have eq: "process_file self e st f =
         st\<lparr>disk := (disk st)\<lparr>attempts := Suc (attempts (disk st))\<rparr>,
            warnings := warnings st @ [(relpath e f, WriteError)]\<rparr>"
        by (simp add: process_file_def append_file_def entry_of_def Let_def flush_in_loop_def
            write_chunk_def open_write_def)
      from Some gt ne bad eq show ?thesis by (rule write_error)
    qed
  qed
qed

lemma chunk_ok_Nil [simp]: "chunk_ok self e []"
  by (simp add: chunk_ok_def)

lemma chunk_ok_single [simp]: "chunk_ok self e [x]"
  by (simp add: chunk_ok_def)

lemma chunk_ok_append:
  assumes "chunk_ok self e c"
    and "\<not> (tokens_per_file self < int (chunk_cost e c + estimate_tokens e (snd x)) \<and> c \<noteq> [])"
  shows "chunk_ok self e (c @ [x])"
proof (cases "c = []")
  case True
  then show ?thesis by simp
next
  case False
  with assms(2) have le: "int (chunk_cost e c + estimate_tokens e (snd x)) \<le> tokens_per_file self"
    by simp
  have "\<not> oversize self e y" if "y \<in> set (c @ [x])" for y
  proof
    assume o: "oversize self e y"
    show False
    proof (cases "y \<in> set c")
      case True
      with assms(1) o have "c = [y]" by (simp add: chunk_ok_def)
      with o le show False by (simp add: oversize_def)
    next
      case False
      with that have "y = x" by simp
      with o le show False by (simp add: oversize_def)
    qed
  qed
  with le show ?thesis
    by (auto simp: chunk_ok_def)
qed

lemma loop_inv_init: "loop_inv self e init_state"
  by (simp add: loop_inv_def init_state_def)

lemma loop_inv_step:
  assumes "loop_inv self e st"
  shows "loop_inv self e (process_file self e st f)"
proof (cases rule: process_file_cases [of e f self st])
  case read_error
  with assms show ?thesis by (simp add: loop_inv_def)
next
  case (append content)
  from assms have c: "current_token_count st = chunk_cost e (current_chunk st)"
    and ok: "chunk_ok self e (current_chunk st)"
    by (simp_all add: loop_inv_def)
  from chunk_ok_append [OF ok, of "entry_of e f content"] append(2) c
  have "chunk_ok self e (current_chunk st @ [entry_of e f content])" by simp
  with assms append(3) show ?thesis by (simp add: loop_inv_def)
next
  case (flush content)
  let ?n = "chunk_number st"
  from assms have names: "map fst (flushed st) = map chunk_name [1..<?n]" and n: "1 \<le> ?n"
    and ch: "chunks st = map (\<lambda>(n, c). (n, map fst c)) (flushed st)"
    and wr: "written (disk st) =
         map (\<lambda>(n, c). (path_join (output_dir self) n, Text (chunk_text n c))) (flushed st)"
    and ok: "chunk_ok self e (current_chunk st)"
    and fl: "\<forall>(n, c) \<in> set (flushed st). c \<noteq> [] \<and> chunk_ok self e c"
    by (simp_all add: loop_inv_def)
  have f1: "fst ` set (chunks st) = chunk_name ` {1..<?n}"
    using names ch by (simp add: image_image case_prod_unfold) (metis (no_types) image_set set_upt list.set_map)
  have f2: "fst ` set (written (disk st)) = (\<lambda>k. path_join (output_dir self) (chunk_name k)) ` {1..<?n}"
  proof -
    have "map fst (written (disk st)) = map (path_join (output_dir self)) (map fst (flushed st))"
      using wr by (simp add: case_prod_unfold comp_def)
    then have "map fst (written (disk st)) = map (\<lambda>k. path_join (output_dir self) (chunk_name k)) [1..<?n]"
      using names by (simp add: comp_def)
    then have "set (map fst (written (disk st))) = set (map (\<lambda>k. path_join (output_dir self) (chunk_name k)) [1..<?n])"
      by simp
    then show ?thesis by simp
  qed
  have u1: "AList.update (chunk_name ?n) (map fst (current_chunk st)) (chunks st)
             = chunks st @ [(chunk_name ?n, map fst (current_chunk st))]"
    by (rule update_fresh) (auto simp: f1 chunk_name_inj)
  have u2: "AList.update (path_join (output_dir self) (chunk_name ?n))
              (Text (chunk_text (chunk_name ?n) (current_chunk st))) (written (disk st))
             = written (disk st) @ [(path_join (output_dir self) (chunk_name ?n),
                                     Text (chunk_text (chunk_name ?n) (current_chunk st)))]"
    by (rule update_fresh) (auto simp: f2 chunk_path_inj)
  have up: "[1..<?n + 1] = [1..<?n] @ [?n]"
    using n by simp
  show ?thesis
    unfolding loop_inv_def flush(5) u1 u2
    using names n ch wr ok fl flush(3) by (simp add: up)
next
  case (write_error content)
  with assms show ?thesis by (simp add: loop_inv_def)
qed

lemma loop_inv_foldl:
  "loop_inv self e st \<Longrightarrow> loop_inv self e (foldl (process_file self e) st fls)"
  by (induction fls arbitrary: st) (simp_all add: loop_inv_step)

lemma loop_inv_run_loop: "loop_inv self e (run_loop self e fls)"
  unfolding run_loop_def by (rule loop_inv_foldl) (rule loop_inv_init)

lemma entries_step:
  "\<exists>b. entries (process_file self e st f) = entries st @ (if b then [packed_entry e f] else [])
       \<and> (b \<longrightarrow> readable e f)
       \<and> ((\<forall>n. write_ok e n) \<longrightarrow> b = readable e f)"
proof (cases rule: process_file_cases [of e f self st])
  case read_error
  then show ?thesis
    by (intro exI [of _ False]) (simp add: entries_def readable_def)
next
  case (append content)
  then show ?thesis
    by (intro exI [of _ True]) (simp add: entries_def readable_def packed_entry_def)
next
  case (flush content)
  then show ?thesis
    by (intro exI [of _ True]) (simp add: entries_def readable_def packed_entry_def)
next
  case (write_error content)
  then show ?thesis
    by (intro exI [of _ False]) (auto simp: entries_def readable_def)
qed

lemma entries_foldl:
  "\<exists>ps. subseq ps fls \<and> (\<forall>f \<in> set ps. readable e f)
        \<and> entries (foldl (process_file self e) st fls) = entries st @ map (packed_entry e) ps
        \<and> ((\<forall>n. write_ok e n) \<longrightarrow> ps = filter (readable e) fls)"
proof (induction fls arbitrary: st)
  case Nil
  show ?case by (intro exI [of _ "[]"]) simp
next
  case (Cons f fls)
  from entries_step [of self e st f] obtain b where
    b: "entries (process_file self e st f) = entries st @ (if b then [packed_entry e f] else [])"
    and r: "b \<longrightarrow> readable e f" and w: "(\<forall>n. write_ok e n) \<longrightarrow> b = readable e f"
    by blast
  from Cons.IH [of "process_file self e st f"] obtain ps where
    s: "subseq ps fls" and rd: "\<forall>f \<in> set ps. readable e f"
    and en: "entries (foldl (process_file self e) (process_file self e st f) fls)
               = entries (process_file self e st f) @ map (packed_entry e) ps"
    and nf: "(\<forall>n. write_ok e n) \<longrightarrow> ps = filter (readable e) fls"
    by blast
  let ?ps = "if b then f # ps else ps"
  have 1: "subseq ?ps (f # fls)"
    using s by (cases b) auto
  have 2: "\<forall>f \<in> set ?ps. readable e f"
    using rd r by simp
  have 3: "entries (foldl (process_file self e) st (f # fls)) = entries st @ map (packed_entry e) ?ps"
    using en b by simp
  have 4: "(\<forall>n. write_ok e n) \<longrightarrow> ?ps = filter (readable e) (f # fls)"
  proof
    assume a: "\<forall>n. write_ok e n"
    with w nf have "b = readable e f" and "ps = filter (readable e) fls"
      by blast+
    then show "?ps = filter (readable e) (f # fls)"
      by simp
  qed
  from 1 2 3 4 show ?case
    by blast
qed

lemma entries_run_loop:
  "\<exists>ps. subseq ps fls \<and> (\<forall>f \<in> set ps. readable e f)
        \<and> entries (run_loop self e fls) = map (packed_entry e) ps
        \<and> ((\<forall>n. write_ok e n) \<longrightarrow> ps = filter (readable e) fls)"
  using entries_foldl [of fls e self init_state]
  by (simp add: run_loop_def entries_def init_state_def)

lemma loop_inv_final_inv: "loop_inv self e st \<Longrightarrow> final_inv self e (st\<lparr>disk := d\<rparr>)"
proof -
  assume i: "loop_inv self e st"
  then have "map fst (flushed st) = map chunk_name [1..<chunk_number st]" and "1 \<le> chunk_number st"
    by (simp_all add: loop_inv_def)
  then have "length (flushed st) = chunk_number st - 1"
    by (metis length_map length_upt)
  with \<open>1 \<le> chunk_number st\<close> have "Suc (length (flushed st)) = chunk_number st"
    by simp
  with i show ?thesis
    by (simp add: loop_inv_def final_inv_def)
qed

lemma final_flush_cases [case_names empty written write_error]:
  obtains
    (empty) "current_chunk st = []" "final_flush self e st = Inr st"
  | (written) "current_chunk st \<noteq> []" "write_ok e (attempts (disk st))"
      "final_flush self e st =
         Inr (st\<lparr>chunks := AList.update (chunk_name (chunk_number st)) (map fst (current_chunk st))
                             (chunks st),
                 disk := (disk st)
                   \<lparr>written := AList.update (path_join (output_dir self) (chunk_name (chunk_number st)))
                                (Text (chunk_text (chunk_name (chunk_number st)) (current_chunk st)))
                                (written (disk st)),
                    attempts := Suc (attempts (disk st))\<rparr>,
                 flushed := flushed st @ [(chunk_name (chunk_number st), current_chunk st)]\<rparr>)"
  | (write_error) "current_chunk st \<noteq> []" "\<not> write_ok e (attempts (disk st))"
      "final_flush self e st =
         Inl (WriteError, st\<lparr>disk := (disk st)\<lparr>attempts := Suc (attempts (disk st))\<rparr>\<rparr>)"
proof (cases "current_chunk st = []")
  case True
  then have "final_flush self e st = Inr st"
    by (simp add: final_flush_def)
  with True show ?thesis by (rule empty)
next
  case ne: False
  show ?thesis
  proof (cases "write_ok e (attempts (disk st))")
    case ok: True
    with ne have eq: "final_flush self e st =
         Inr (st\<lparr>chunks := AList.update (chunk_name (chunk_number st)) (map fst (current_chunk st))
                             (chunks st),
                 disk := (disk st)
                   \<lparr>written := AList.update (path_join (output_dir self) (chunk_name (chunk_number st)))
                                (Text (chunk_text (chunk_name (chunk_number st)) (current_chunk st)))
                                (written (disk st)),
                    attempts := Suc (attempts (disk st))\<rparr>,
                 flushed := flushed st @ [(chunk_name (chunk_number st), current_chunk st)]\<rparr>)"
      by (simp add: final_flush_def write_chunk_def open_write_def Let_def)
    from ne ok eq show ?thesis by (rule written)
  next
    case bad: False
    with ne have eq: "final_flush self e st =
         Inl (WriteError, st\<lparr>disk := (disk st)\<lparr>attempts := Suc (attempts (disk st))\<rparr>\<rparr>)"
      by (simp add: final_flush_def write_chunk_def open_write_def Let_def)
    from ne bad eq show ?thesis by (rule write_error)
  qed
qed

lemma final_inv_disk [simp]: "final_inv self e (st\<lparr>disk := d\<rparr>) = final_inv self e st"
  by (simp add: final_inv_def)

lemma loop_inv_final_inv': "loop_inv self e st \<Longrightarrow> final_inv self e st"
  using loop_inv_final_inv [of self e st "disk st"] by simp

lemma loop_inv_fresh_name:
  assumes "loop_inv self e st"
  shows "chunk_name (chunk_number st) \<notin> fst ` set (chunks st)"
    and "path_join (output_dir self) (chunk_name (chunk_number st)) \<notin> fst ` set (written (disk st))"
    and "written (disk st) = disk_of_flushed self (flushed st)"
proof -
  let ?n = "chunk_number st"
  from assms have names: "map fst (flushed st) = map chunk_name [1..<?n]"
    and ch: "chunks st = map (\<lambda>(n, c). (n, map fst c)) (flushed st)"
    and wr: "written (disk st) = disk_of_flushed self (flushed st)"
    by (simp_all add: loop_inv_def disk_of_flushed_def)
  have "map fst (chunks st) = map fst (flushed st)"
    using ch by (simp add: case_prod_unfold comp_def)
  with names have "set (map fst (chunks st)) = set (map chunk_name [1..<?n])"
    by simp
  then show "chunk_name ?n \<notin> fst ` set (chunks st)"
    by (auto simp: chunk_name_inj)
  have "map fst (written (disk st)) = map (path_join (output_dir self)) (map fst (flushed st))"
    using wr by (simp add: disk_of_flushed_def case_prod_unfold comp_def)
  with names have "set (map fst (written (disk st)))
      = set (map (\<lambda>k. path_join (output_dir self) (chunk_name k)) [1..<?n])"
    by (simp add: comp_def)
  then show "path_join (output_dir self) (chunk_name ?n) \<notin> fst ` set (written (disk st))"
    by (auto simp: chunk_path_inj)
  show "written (disk st) = disk_of_flushed self (flushed st)" by (rule wr)
qed

lemma final_flush_Inr:
  assumes "loop_inv self e st" and "final_flush self e st = Inr st'"
  shows "final_inv self e st'"
    and "concat (map snd (flushed st')) = entries st"
    and "written (disk st') = disk_of_flushed self (flushed st')"
    and "warnings st' = warnings st"
proof -
  have "final_inv self e st' \<and> concat (map snd (flushed st')) = entries st
        \<and> written (disk st') = disk_of_flushed self (flushed st') \<and> warnings st' = warnings st"
  proof (cases rule: final_flush_cases [of st self e])
    case empty
    with assms have "st' = st" by simp
    with assms(1) empty(1) loop_inv_fresh_name(3) [OF assms(1)] show ?thesis
      by (simp add: loop_inv_final_inv' entries_def)
  next
    case written
    let ?n = "chunk_number st"
    from assms(1) have ok: "chunk_ok self e (current_chunk st)"
      and fl: "\<forall>(n, c) \<in> set (flushed st). c \<noteq> [] \<and> chunk_ok self e c"
      and names: "map fst (flushed st) = map chunk_name [1..<?n]" and n: "1 \<le> ?n"
      and ch: "chunks st = map (\<lambda>(n, c). (n, map fst c)) (flushed st)"
      by (simp_all add: loop_inv_def)
    have len: "length (flushed st) = ?n - 1"
      using names by (metis length_map length_upt)
    have sl: "Suc (length (flushed st)) = ?n"
      using n len by simp
    have u1: "AList.update (chunk_name ?n) (map fst (current_chunk st)) (chunks st)
               = chunks st @ [(chunk_name ?n, map fst (current_chunk st))]"
      by (rule update_fresh) (rule loop_inv_fresh_name(1) [OF assms(1)])
    have u2: "AList.update (path_join (output_dir self) (chunk_name ?n))
                (Text (chunk_text (chunk_name ?n) (current_chunk st))) (written (disk st))
               = written (disk st) @ [(path_join (output_dir self) (chunk_name ?n),
                                       Text (chunk_text (chunk_name ?n) (current_chunk st)))]"
      by (rule update_fresh) (rule loop_inv_fresh_name(2) [OF assms(1)])
    from assms(2) written(3) have st': "st' =
        st\<lparr>chunks := chunks st @ [(chunk_name ?n, map fst (current_chunk st))],
           disk := (disk st)
             \<lparr>written := written (disk st) @ [(path_join (output_dir self) (chunk_name ?n),
                                       Text (chunk_text (chunk_name ?n) (current_chunk st)))],
              attempts := Suc (attempts (disk st))\<rparr>,
           flushed := flushed st @ [(chunk_name ?n, current_chunk st)]\<rparr>"
      by (simp add: u1 u2)
    show ?thesis
      unfolding st' final_inv_def entries_def
      using ok fl names ch n written(1) loop_inv_fresh_name(3) [OF assms(1)]
      by (simp add: sl disk_of_flushed_def)
  next
    case write_error
    with assms show ?thesis by simp
  qed
  then show "final_inv self e st'" and "concat (map snd (flushed st')) = entries st"
    and "written (disk st') = disk_of_flushed self (flushed st')" and "warnings st' = warnings st"
    by simp_all
qed

lemma final_flush_Inl:
  assumes "loop_inv self e st" and "final_flush self e st = Inl (err, st')"
  shows "final_inv self e st'" and "written (disk st') = disk_of_flushed self (flushed st')"
proof -
  have "final_inv self e st' \<and> written (disk st') = disk_of_flushed self (flushed st')"
  proof (cases rule: final_flush_cases [of st self e])
    case empty
    with assms show ?thesis by simp
  next
    case written
    with assms show ?thesis by simp
  next
    case write_error
    with assms(2) have "st' = st\<lparr>disk := (disk st)\<lparr>attempts := Suc (attempts (disk st))\<rparr>\<rparr>"
      by simp
    with assms(1) loop_inv_fresh_name(3) [OF assms(1)] show ?thesis
      by (simp add: loop_inv_final_inv')
  qed
  then show "final_inv self e st'" and "written (disk st') = disk_of_flushed self (flushed st')"
    by simp_all
qed

lemma final_flush_no_write_error:
  "write_ok e (attempts (disk st)) \<Longrightarrow> \<exists>st'. final_flush self e st = Inr st'"
  by (cases rule: final_flush_cases [of st self e]) simp_all

lemma manifest_path_fresh:
  "path_join (output_dir self) ''manifest.json'' \<notin> fst ` set (disk_of_flushed self fl)"
    if "set (map fst fl) \<subseteq> range chunk_name"
proof
  assume "path_join (output_dir self) ''manifest.json'' \<in> fst ` set (disk_of_flushed self fl)"
  then obtain n c where "(n, c) \<in> set fl"
    and eq: "path_join (output_dir self) ''manifest.json'' = path_join (output_dir self) n"
    by (auto simp: disk_of_flushed_def)
  with that obtain k where "n = chunk_name k"
    by force
  with eq show False
    by (auto simp: path_join_def chunk_name_def split: if_splits)
qed

lemma flatten_Inr:
  assumes "flatten self e = Inr res"
  shows "final_inv self e res"
    and "concat (map snd (flushed res)) = entries (run_loop self e (sorted_files self e))"
    and "written (disk res) = disk_of_flushed self (flushed res)
           @ [(manifest_path self, Json (build_manifest self (chunks res)))]"
proof -
  let ?st = "run_loop self e (sorted_files self e)"
  have i: "loop_inv self e ?st" by (rule loop_inv_run_loop)
  from assms obtain st' where ff: "final_flush self e ?st = Inr st'"
    by (auto simp: flatten_def split: sum.splits prod.splits)
  note f = final_flush_Inr [OF i ff]
  from assms ff have ok: "write_ok e (attempts (disk st'))"
    and res: "res = st'\<lparr>disk := (disk st')
        \<lparr>written := AList.update (manifest_path self) (Json (build_manifest self (chunks st')))
                     (written (disk st')),
         attempts := Suc (attempts (disk st'))\<rparr>\<rparr>"
    by (auto simp: flatten_def create_chunk_manifest_def open_write_def manifest_path_def Let_def
             split: if_splits)
  from f(1) have "set (map fst (flushed st')) \<subseteq> range chunk_name"
    by (auto simp: final_inv_def)
  from manifest_path_fresh [OF this, of self] f(3)
  have "manifest_path self \<notin> fst ` set (written (disk st'))"
    by (simp add: manifest_path_def)
  then have u: "AList.update (manifest_path self) (Json (build_manifest self (chunks st')))
                  (written (disk st'))
                = written (disk st') @ [(manifest_path self, Json (build_manifest self (chunks st')))]"
    by (rule update_fresh)
  from f(1) res show "final_inv self e res" by simp
  from f(2) res show "concat (map snd (flushed res)) = entries ?st" by simp
  from f(3) res u show "written (disk res) = disk_of_flushed self (flushed res)
           @ [(manifest_path self, Json (build_manifest self (chunks res)))]"
    by simp
qed

lemma flatten_Inl:
  assumes "flatten self e = Inl (err, res)"
  shows "final_inv self e res"
    and "written (disk res) = disk_of_flushed self (flushed res)"
proof -
  let ?st = "run_loop self e (sorted_files self e)"
  have i: "loop_inv self e ?st" by (rule loop_inv_run_loop)
  have "final_inv self e res \<and> written (disk res) = disk_of_flushed self (flushed res)"
  proof (cases "final_flush self e ?st")
    case (Inl r)
    with assms have "final_flush self e ?st = Inl (err, res)"
      by (auto simp: flatten_def split: prod.splits)
    from final_flush_Inl [OF i this] show ?thesis by simp
  next
    case (Inr st')
    note f = final_flush_Inr [OF i Inr]
    from assms Inr have "res = st'\<lparr>disk := (disk st')\<lparr>attempts := Suc (attempts (disk st'))\<rparr>\<rparr>"
      by (auto simp: flatten_def create_chunk_manifest_def open_write_def Let_def
               split: if_splits)
    with f(1,3) show ?thesis by simp
  qed
  then show "final_inv self e res" and "written (disk res) = disk_of_flushed self (flushed res)"
    by simp_all
qed

lemma flatten_no_write_error:
  assumes "\<forall>n. write_ok e n"
  shows "\<exists>res. flatten self e = Inr res"
proof -
  from final_flush_no_write_error [of e "run_loop self e (sorted_files self e)" self] assms
  obtain st' where "final_flush self e (run_loop self e (sorted_files self e)) = Inr st'"
    by blast
  with assms show ?thesis
    by (simp add: flatten_def create_chunk_manifest_def open_write_def Let_def)
qed

lemma subseq_sorted_wrt: "subseq xs ys \<Longrightarrow> sorted_wrt P ys \<Longrightarrow> sorted_wrt P xs"
proof (induction rule: list_emb.induct)
  case (list_emb_Nil ys)
  then show ?case by simp
next
  case (list_emb_Cons xs ys y)
  then show ?case by simp
next
  case (list_emb_Cons2 x y xs ys)
  then have "set xs \<subseteq> set ys"
    using list_emb_set [of "(=)" xs ys] by auto
  with list_emb_Cons2 show ?case by auto
qed

lemma chunk_cost_butlast: "chunk_cost e (butlast c) \<le> chunk_cost e c"
proof (cases c rule: rev_cases)
  case Nil
  then show ?thesis by simp
next
  case (snoc ys y)
  then show ?thesis by simp
qed

text \<open>
  Claim C3. At any point of the loop (after any files \<open>fls\<close> have been processed), when the
  next file is appended to a chunk that is not empty, the counter equals the accumulated
  cost of the chunk and that cost does not exceed the budget, before the append and after
  it. Hence in every chunk of two or more files that a run writes, whether the run returns
  or raises later, the cost before the last file was appended, and the cost of the whole
  chunk, are within the budget.
\<close>

theorem chunk_budget_respected:
  "(current_chunk (run_loop self e fls) \<noteq> []
      \<and> current_chunk (process_file self e (run_loop self e fls) f)
          = current_chunk (run_loop self e fls) @ [x]
      \<longrightarrow> current_token_count (run_loop self e fls) = chunk_cost e (current_chunk (run_loop self e fls))
          \<and> int (chunk_cost e (current_chunk (run_loop self e fls))) \<le> tokens_per_file self
          \<and> int (chunk_cost e (current_chunk (run_loop self e fls) @ [x])) \<le> tokens_per_file self)
   \<and> ((flatten self e = Inr res \<or> flatten self e = Inl (err, res))
      \<and> (name, c) \<in> set (flushed res) \<and> 2 \<le> length c
      \<longrightarrow> int (chunk_cost e (butlast c)) \<le> tokens_per_file self
          \<and> int (chunk_cost e c) \<le> tokens_per_file self)"
proof (intro conjI impI)
  let ?st = "run_loop self e fls"
  assume a: "current_chunk ?st \<noteq> [] \<and> current_chunk (process_file self e ?st f) = current_chunk ?st @ [x]"
  have i: "loop_inv self e ?st" by (rule loop_inv_run_loop)
  then show c: "current_token_count ?st = chunk_cost e (current_chunk ?st)"
    by (simp add: loop_inv_def)
  have "loop_inv self e (process_file self e ?st f)"
    using i by (rule loop_inv_step)
  then have "chunk_ok self e (current_chunk ?st @ [x])"
    using a by (simp add: loop_inv_def)
  moreover from a have "2 \<le> length (current_chunk ?st @ [x])"
    by (cases "current_chunk ?st") simp_all
  ultimately show le: "int (chunk_cost e (current_chunk ?st @ [x])) \<le> tokens_per_file self"
    by (simp add: chunk_ok_def)
  then show "int (chunk_cost e (current_chunk ?st)) \<le> tokens_per_file self"
    by simp
next
  assume a: "(flatten self e = Inr res \<or> flatten self e = Inl (err, res))
      \<and> (name, c) \<in> set (flushed res) \<and> 2 \<le> length c"
  then have "final_inv self e res"
    using flatten_Inr(1) flatten_Inl(1) by blast
  with a have "chunk_ok self e c"
    by (auto simp: final_inv_def)
  with a show le: "int (chunk_cost e c) \<le> tokens_per_file self"
    by (simp add: chunk_ok_def)
  with chunk_cost_butlast [of e c] show "int (chunk_cost e (butlast c)) \<le> tokens_per_file self"
    by simp
qed

theorem chunk_budget_respected_witness:
  "current_chunk (run_loop plain_flattener two_file_env [''/p/a.ts'']) \<noteq> []
   \<and> current_chunk (process_file plain_flattener two_file_env
         (run_loop plain_flattener two_file_env [''/p/a.ts'']) ''/p/b.ts'')
       = current_chunk (run_loop plain_flattener two_file_env [''/p/a.ts''])
         @ [packed_entry two_file_env ''/p/b.ts'']
   \<and> int (chunk_cost two_file_env (current_chunk (run_loop plain_flattener two_file_env [''/p/a.ts''])))
       \<le> tokens_per_file plain_flattener
   \<and> (\<exists>res. flatten plain_flattener two_file_env = Inr res
          \<and> (''chunk_1.txt'', map (packed_entry two_file_env) [''/p/a.ts'', ''/p/b.ts''])
              \<in> set (flushed res))
   \<and> int (chunk_cost two_file_env
            (butlast (map (packed_entry two_file_env) [''/p/a.ts'', ''/p/b.ts''])))
       \<le> tokens_per_file plain_flattener"
proof -
  let ?st = "run_loop plain_flattener two_file_env [''/p/a.ts'']"
  let ?c = "map (packed_entry two_file_env) [''/p/a.ts'', ''/p/b.ts'']"
  have a: "current_chunk ?st \<noteq> []
      \<and> current_chunk (process_file plain_flattener two_file_env ?st ''/p/b.ts'')
          = current_chunk ?st @ [packed_entry two_file_env ''/p/b.ts'']"
    by code_simp
  have b: "case flatten plain_flattener two_file_env of
             Inl r \<Rightarrow> False
           | Inr res \<Rightarrow> (''chunk_1.txt'', ?c) \<in> set (flushed res)"
    by code_simp
  then obtain res where r: "flatten plain_flattener two_file_env = Inr res"
    and m: "(''chunk_1.txt'', ?c) \<in> set (flushed res)"
    by (cases "flatten plain_flattener two_file_env") simp_all
  have l: "2 \<le> length ?c"
    by simp
  note t = chunk_budget_respected [where self = plain_flattener and e = two_file_env
      and fls = "[''/p/a.ts'']" and f = "''/p/b.ts''" and x = "packed_entry two_file_env ''/p/b.ts''"
      and res = res and name = "''chunk_1.txt''" and c = ?c]
  from t a have 1: "int (chunk_cost two_file_env (current_chunk ?st)) \<le> tokens_per_file plain_flattener"
    by blast
  from t r m l have 2: "int (chunk_cost two_file_env (butlast ?c)) \<le> tokens_per_file plain_flattener"
    by blast
  from r m have 3: "\<exists>res. flatten plain_flattener two_file_env = Inr res
          \<and> (''chunk_1.txt'', ?c) \<in> set (flushed res)"
    by blast
  show ?thesis
    by (intro conjI a [THEN conjunct1] a [THEN conjunct2] 1 2 3)
qed

text \<open>
  Claim C8. The files are sorted by priority with a stable sort, and the packed output
  keeps that order: the files listed in the chunks written and in the manifest, read in
  order, are the relative paths of a subsequence \<open>ps\<close> of the sorted files; priorities never
  decrease along \<open>ps\<close>, and the files of \<open>ps\<close> that share a priority \<open>k\<close> stand in the order
  in which the traversal found them.
\<close>

theorem packing_order_stable:
  assumes "flatten self e = Inr res"
  shows "\<exists>ps. subseq ps (sorted_files self e)
            \<and> concat (map snd (chunks res)) = map (relpath e) ps
            \<and> concat (map (\<lambda>(n, c). map fst c) (flushed res)) = map (relpath e) ps
            \<and> map_of (written (disk res)) (manifest_path self)
                = Some (Json (build_manifest self (chunks res)))
            \<and> sorted (map (get_file_priority self) ps)
            \<and> (\<forall>k. subseq (filter (\<lambda>f. get_file_priority self f = k) ps) (walk e))"
proof -
  let ?prio = "get_file_priority self"
  from entries_run_loop [of "sorted_files self e" e self] obtain ps where
    s: "subseq ps (sorted_files self e)" and rd: "\<forall>f \<in> set ps. readable e f"
    and en: "entries (run_loop self e (sorted_files self e)) = map (packed_entry e) ps"
    by blast
  note r = flatten_Inr [OF assms]
  have fst_entry: "fst (packed_entry e f) = relpath e f" for f
    by (simp add: packed_entry_def entry_of_def split: option.splits)
  from r(2) en have fl: "concat (map snd (flushed res)) = map (packed_entry e) ps"
    by simp
  have "concat (map (\<lambda>(n, c). map fst c) (flushed res)) = map fst (concat (map snd (flushed res)))"
    by (simp add: map_concat case_prod_unfold comp_def)
  with fl have 2: "concat (map (\<lambda>(n, c). map fst c) (flushed res)) = map (relpath e) ps"
    by (simp add: fst_entry comp_def)
  from r(1) have "map snd (chunks res) = map (\<lambda>(n, c). map fst c) (flushed res)"
    by (simp add: final_inv_def case_prod_unfold comp_def)
  with 2 have 1: "concat (map snd (chunks res)) = map (relpath e) ps"
    by simp
  have "manifest_path self \<notin> fst ` set (disk_of_flushed self (flushed res))"
    unfolding manifest_path_def using r(1) by (intro manifest_path_fresh) (auto simp: final_inv_def)
  then have "map_of (disk_of_flushed self (flushed res)) (manifest_path self) = None"
    by (simp add: map_of_eq_None_iff)
  with r(3) have 3: "map_of (written (disk res)) (manifest_path self)
                = Some (Json (build_manifest self (chunks res)))"
    by (simp add: map_add_def)
  have "sorted (map ?prio (sorted_files self e))"
    by (simp add: sorted_files_def)
  then have "sorted_wrt (\<lambda>a b. ?prio a \<le> ?prio b) (sorted_files self e)"
    by (simp add: sorted_map)
  from subseq_sorted_wrt [OF s this] have 4: "sorted (map ?prio ps)"
    by (simp add: sorted_map)
  have 5: "subseq (filter (\<lambda>f. ?prio f = k) ps) (walk e)" for k
  proof -
    have "subseq (filter (\<lambda>f. ?prio f = k) ps) (filter (\<lambda>f. ?prio f = k) (sorted_files self e))"
      using s by (rule subseq_filter)
    also have "filter (\<lambda>f. ?prio f = k) (sorted_files self e) = filter (\<lambda>f. ?prio f = k) (all_files e)"
      unfolding sorted_files_def by (rule sort_key_stable)
    also have "subseq \<dots> (all_files e)"
      by simp
    also have "subseq (all_files e) (walk e)"
      by (simp add: all_files_def)
    finally show ?thesis .
  qed
  from s 1 2 3 4 5 show ?thesis by blast
qed

theorem packing_order_stable_witness:
  "(\<exists>res. flatten plain_flattener three_file_env = Inr res
      \<and> concat (map snd (chunks res))
          = [''src/components/a.ts'', ''src/utils/b.ts'', ''src/utils/a.ts''])
   \<and> (\<exists>ps. subseq ps (sorted_files plain_flattener three_file_env)
          \<and> [''src/components/a.ts'', ''src/utils/b.ts'', ''src/utils/a.ts'']
              = map (relpath three_file_env) ps
          \<and> sorted (map (get_file_priority plain_flattener) ps)
          \<and> subseq (filter (\<lambda>f. get_file_priority plain_flattener f = 4) ps)
               (walk three_file_env))"
proof -
  have "case flatten plain_flattener three_file_env of
          Inl r \<Rightarrow> False
        | Inr res \<Rightarrow> concat (map snd (chunks res))
                      = [''src/components/a.ts'', ''src/utils/b.ts'', ''src/utils/a.ts'']"
    by code_simp
  then obtain res where r: "flatten plain_flattener three_file_env = Inr res"
    and c: "concat (map snd (chunks res))
              = [''src/components/a.ts'', ''src/utils/b.ts'', ''src/utils/a.ts'']"
    by (cases "flatten plain_flattener three_file_env") simp_all
  from packing_order_stable [OF r] obtain ps where
    "subseq ps (sorted_files plain_flattener three_file_env)"
    "concat (map snd (chunks res)) = map (relpath three_file_env) ps"
    "sorted (map (get_file_priority plain_flattener) ps)"
    "\<forall>k. subseq (filter (\<lambda>f. get_file_priority plain_flattener f = k) ps) (walk three_file_env)"
    by blast
  with c have "\<exists>ps. subseq ps (sorted_files plain_flattener three_file_env)
          \<and> [''src/components/a.ts'', ''src/utils/b.ts'', ''src/utils/a.ts'']
              = map (relpath three_file_env) ps
          \<and> sorted (map (get_file_priority plain_flattener) ps)
          \<and> subseq (filter (\<lambda>f. get_file_priority plain_flattener f = 4) ps)
               (walk three_file_env)"
    by metis
  with r c show ?thesis by blast
qed

lemma warnings_step_mono: "set (warnings st) \<subseteq> set (warnings (process_file self e st f))"
  by (cases rule: process_file_cases [of e f self st]) auto

lemma warnings_foldl_mono:
  "set (warnings st) \<subseteq> set (warnings (foldl (process_file self e) st fls))"
proof (induction fls arbitrary: st)
  case Nil
  show ?case by simp
next
  case (Cons f fls)
  from warnings_step_mono [of st self e f] Cons [of "process_file self e st f"]
  show ?case by auto
qed

lemma entries_step_logged:
  assumes "WriteError \<notin> snd ` set (warnings (process_file self e st f))"
  shows "entries (process_file self e st f)
           = entries st @ (if readable e f then [packed_entry e f] else [])"
proof (cases rule: process_file_cases [of e f self st])
  case read_error
  then show ?thesis by (simp add: entries_def readable_def)
next
  case (append content)
  then show ?thesis by (simp add: entries_def readable_def packed_entry_def)
next
  case (flush content)
  then show ?thesis by (simp add: entries_def readable_def packed_entry_def)
next
  case (write_error content)
  with assms show ?thesis by (simp add: image_Un)
qed

lemma entries_foldl_logged:
  "WriteError \<notin> snd ` set (warnings (foldl (process_file self e) st fls)) \<Longrightarrow>
     entries (foldl (process_file self e) st fls)
       = entries st @ map (packed_entry e) (filter (readable e) fls)"
proof (induction fls arbitrary: st)
  case Nil
  show ?case by simp
next
  case (Cons f fls)
  let ?st = "process_file self e st f"
  from Cons.prems have w: "WriteError \<notin> snd ` set (warnings (foldl (process_file self e) ?st fls))"
    by simp
  with warnings_foldl_mono [of ?st self e fls] have "WriteError \<notin> snd ` set (warnings ?st)"
    by auto
  from entries_step_logged [OF this] Cons.IH [OF w] show ?case
    by simp
qed

lemma flatten_warnings:
  assumes "flatten self e = Inr res"
  shows "warnings res = warnings (run_loop self e (sorted_files self e))"
proof -
  let ?st = "run_loop self e (sorted_files self e)"
  from assms obtain st' d where ff: "final_flush self e ?st = Inr st'" and res: "res = st'\<lparr>disk := d\<rparr>"
    by (auto simp: flatten_def split: sum.splits prod.splits)
  from final_flush_Inr(4) [OF loop_inv_run_loop ff] res show ?thesis
    by simp
qed

lemma fst_packed_entry [simp]: "fst (packed_entry e f) = relpath e f"
  by (simp add: packed_entry_def entry_of_def split: option.splits)

lemma final_inv_distinct:
  assumes "final_inv self e res"
  shows "distinct (map fst (flushed res))" and "distinct (map fst (chunks res))"
    and "distinct (map fst (disk_of_flushed self (flushed res)))"
proof -
  from assms have n: "map fst (flushed res) = map chunk_name [1..<Suc (length (flushed res))]"
    and c: "chunks res = map (\<lambda>(n, c). (n, map fst c)) (flushed res)"
    by (simp_all add: final_inv_def)
  have "inj chunk_name"
    by (simp add: inj_def chunk_name_inj)
  then have "distinct (map chunk_name [1..<Suc (length (flushed res))])"
    by (simp only: distinct_map distinct_upt) (metis inj_on_subset subset_UNIV)
  with n show d: "distinct (map fst (flushed res))"
    by simp
  have "map fst (chunks res) = map fst (flushed res)"
    using c by (simp add: case_prod_unfold comp_def)
  with d show "distinct (map fst (chunks res))"
    by simp
  have "inj (\<lambda>k. path_join (output_dir self) (chunk_name k))"
    by (simp add: inj_def chunk_path_inj)
  then have "distinct (map (\<lambda>k. path_join (output_dir self) (chunk_name k)) [1..<Suc (length (flushed res))])"
    by (simp only: distinct_map distinct_upt) (metis inj_on_subset subset_UNIV)
  moreover have "map fst (disk_of_flushed self (flushed res))
      = map (path_join (output_dir self)) (map fst (flushed res))"
    by (simp add: disk_of_flushed_def case_prod_unfold comp_def)
  ultimately show "distinct (map fst (disk_of_flushed self (flushed res)))"
    using n by (simp add: comp_def)
qed

text \<open>
  The manifest of a run that returns, and in which no failed \<open>write_chunk\<close> was caught
  inside the loop, lists the files that were selected and read, each once, in sorted
  order.
\<close>

lemma manifest_complete:
  assumes "flatten self e = Inr res" and "WriteError \<notin> snd ` set (warnings res)"
  shows "concat (map snd (flushed res))
           = map (packed_entry e) (filter (readable e) (sorted_files self e))"
    and "concat (map snd (chunks res))
           = map (relpath e) (filter (readable e) (sorted_files self e))"
    and "map_of (written (disk res)) (manifest_path self)
           = Some (Json (build_manifest self (chunks res)))"
    and "concat (map (\<lambda>(n, m). files m) (manifest_chunks (build_manifest self (chunks res))))
           = map (relpath e) (filter (readable e) (sorted_files self e))"
proof -
  let ?fls = "sorted_files self e"
  note r = flatten_Inr [OF assms(1)]
  from assms(2) flatten_warnings [OF assms(1)]
  have "WriteError \<notin> snd ` set (warnings (foldl (process_file self e) init_state ?fls))"
    by (simp add: run_loop_def)
  from entries_foldl_logged [OF this]
  have "entries (run_loop self e ?fls) = map (packed_entry e) (filter (readable e) ?fls)"
    by (simp add: run_loop_def entries_def init_state_def)
  with r(2) show 1: "concat (map snd (flushed res)) = map (packed_entry e) (filter (readable e) ?fls)"
    by simp
  from r(1) have "map snd (chunks res) = map (\<lambda>(n, c). map fst c) (flushed res)"
    by (simp add: final_inv_def case_prod_unfold comp_def)
  moreover have "concat (map (\<lambda>(n, c). map fst c) (flushed res))
      = map fst (concat (map snd (flushed res)))"
    by (simp add: map_concat case_prod_unfold comp_def)
  ultimately show 2: "concat (map snd (chunks res)) = map (relpath e) (filter (readable e) ?fls)"
    using 1 by (simp add: comp_def)
  have "manifest_path self \<notin> fst ` set (disk_of_flushed self (flushed res))"
    unfolding manifest_path_def using r(1) by (intro manifest_path_fresh) (auto simp: final_inv_def)
  then have "map_of (disk_of_flushed self (flushed res)) (manifest_path self) = None"
    by (simp add: map_of_eq_None_iff)
  with r(3) show "map_of (written (disk res)) (manifest_path self)
                = Some (Json (build_manifest self (chunks res)))"
    by (simp add: map_add_def)
  have "map (\<lambda>(n, m). files m) (manifest_chunks (build_manifest self (chunks res)))
      = map snd (chunks res)"
    by (simp add: build_manifest_def case_prod_unfold comp_def)
  with 2 show "concat (map (\<lambda>(n, m). files m) (manifest_chunks (build_manifest self (chunks res))))
           = map (relpath e) (filter (readable e) ?fls)"
    by simp
qed

text \<open>
  The counts of a manifest: every entry counts its own files, and the total is the number
  of chunks written, which have distinct names.
\<close>

lemma manifest_counts:
  assumes "flatten self e = Inr res"
  shows "list_all (\<lambda>(n, m). file_count m = length (files m))
           (manifest_chunks (build_manifest self (chunks res)))"
    and "total_chunks (build_manifest self (chunks res)) = length (flushed res)"
    and "map fst (manifest_chunks (build_manifest self (chunks res))) = map fst (flushed res)"
    and "distinct (map fst (flushed res))"
proof -
  note r = flatten_Inr [OF assms]
  show "list_all (\<lambda>(n, m). file_count m = length (files m))
           (manifest_chunks (build_manifest self (chunks res)))"
    by (simp add: build_manifest_def list_all_iff case_prod_unfold)
  from r(1) have c: "chunks res = map (\<lambda>(n, c). (n, map fst c)) (flushed res)"
    by (simp add: final_inv_def)
  then show "total_chunks (build_manifest self (chunks res)) = length (flushed res)"
    by (simp add: build_manifest_def)
  from c show "map fst (manifest_chunks (build_manifest self (chunks res))) = map fst (flushed res)"
    by (simp add: build_manifest_def case_prod_unfold comp_def)
  from final_inv_distinct(1) [OF r(1)] show "distinct (map fst (flushed res))" .
qed

text \<open>
  An entry whose own cost exceeds the budget is the only entry of the chunk it is in, and
  the text of a chunk file holds the content of each of its entries in one piece. Both
  hold of every chunk written, in every run.
\<close>

lemma oversize_alone:
  assumes "flatten self e = Inr res \<or> flatten self e = Inl (err, res)"
    and "(n, c) \<in> set (flushed res)" and "x \<in> set c" and "oversize self e x"
  shows "c = [x]"
proof -
  from assms(1) have "final_inv self e res"
    using flatten_Inr(1) flatten_Inl(1) by blast
  with assms(2) have "chunk_ok self e c"
    by (auto simp: final_inv_def)
  with assms(3,4) show ?thesis
    by (simp add: chunk_ok_def)
qed

lemma content_contiguous:
  assumes "(rel_path, content) \<in> set c"
  shows "\<exists>before after. chunk_text n c = before @ content @ after"
proof -
  from assms obtain c1 c2 where c: "c = c1 @ (rel_path, content) # c2"
    by (meson split_list)
  have "concat (map (\<lambda>(_, content). content) c)
          = concat (map (\<lambda>(_, content). content) c1) @ content
            @ concat (map (\<lambda>(_, content). content) c2)"
    by (simp add: c)
  then show ?thesis
    unfolding chunk_text_def by (metis append.assoc)
qed

lemma chunk_on_disk:
  assumes "flatten self e = Inr res \<or> flatten self e = Inl (err, res)"
    and "(n, c) \<in> set (flushed res)"
  shows "map_of (written (disk res)) (path_join (output_dir self) n) = Some (Text (chunk_text n c))"
proof -
  from assms(1) have i: "final_inv self e res"
    using flatten_Inr(1) flatten_Inl(1) by blast
  from assms(2) have m: "(path_join (output_dir self) n, Text (chunk_text n c))
      \<in> set (disk_of_flushed self (flushed res))"
    by (force simp: disk_of_flushed_def)
  with final_inv_distinct(3) [OF i]
  have s: "map_of (disk_of_flushed self (flushed res)) (path_join (output_dir self) n)
            = Some (Text (chunk_text n c))"
    by simp
  from assms(1) show ?thesis
  proof
    assume "flatten self e = Inr res"
    from flatten_Inr(3) [OF this] s show ?thesis
      by (simp add: map_add_def)
  next
    assume "flatten self e = Inl (err, res)"
    from flatten_Inl(2) [OF this] s show ?thesis
      by simp
  qed
qed

lemma no_manifest_after_error:
  assumes "flatten self e = Inl (err, res)"
  shows "map_of (written (disk res)) (manifest_path self) = None"
proof -
  note r = flatten_Inl [OF assms]
  have "manifest_path self \<notin> fst ` set (disk_of_flushed self (flushed res))"
    unfolding manifest_path_def using r(1) by (intro manifest_path_fresh) (auto simp: final_inv_def)
  with r(2) show ?thesis
    by (simp add: map_of_eq_None_iff)
qed

text \<open>
  Claim C2 fails on the code when \<open>write_chunk\<close> raises inside the loop: the call stands in
  the \<open>try\<close> block, so the \<open>except Exception\<close> clause meant for unreadable files catches the
  error. With a budget of 50 tokens and two files of 44 tokens each, the first attempt to
  write \<open>chunk_1.txt\<close> raises while \<open>b.ts\<close> is processed; the run prints a warning for
  \<open>b.ts\<close>, goes on, writes \<open>chunk_1.txt\<close> in the final flush and writes the manifest.
  The final flush and the manifest are written outside the \<open>try\<close>: there a write error
  does propagate (\<open>final_flush\<close>, \<open>no_manifest_after_error\<close>).
\<close>

theorem swallowed_write_error:
  "\<not> write_ok flaky_env 0
   \<and> (case flatten small_flattener flaky_env of
        Inl r \<Rightarrow> False
      | Inr res \<Rightarrow>
          warnings res = [(''b.ts'', WriteError)]
          \<and> chunks res = [(''chunk_1.txt'', [''a.ts''])]
          \<and> map fst (written (disk res)) = [''out/chunk_1.txt'', ''out/manifest.json'']
          \<and> map_of (written (disk res)) ''out/manifest.json''
              = Some (Json \<lparr>manifest_project_path = ''/p'', total_chunks = 1,
                            manifest_chunks =
                              [(''chunk_1.txt'', \<lparr>files = [''a.ts''], file_count = 1\<rparr>)]\<rparr>))"
  by code_simp

text \<open>
  Claim C4 fails on the code in a run with the same defect as in C2: \<open>b.ts\<close> is selected
  and read, its entry alone costs 54 tokens against a budget of 50, and the flush it
  triggers raises; the error is caught and \<open>b.ts\<close> is in no chunk of the completed run.
  Without such an error the claim holds: \<open>oversize_alone\<close>, \<open>content_contiguous\<close>,
  \<open>chunk_on_disk\<close> and \<open>manifest_complete\<close>.
\<close>

theorem oversize_file_dropped:
  "''/p/b.ts'' \<in> set (sorted_files small_flattener big_file_env)
   \<and> readable big_file_env ''/p/b.ts''
   \<and> oversize small_flattener big_file_env (packed_entry big_file_env ''/p/b.ts'')
   \<and> (case flatten small_flattener big_file_env of
        Inl r \<Rightarrow> False
      | Inr res \<Rightarrow>
          map snd (flushed res) = [[packed_entry big_file_env ''/p/a.ts'']]
          \<and> chunks res = [(''chunk_1.txt'', [''a.ts''])])"
  by code_simp

text \<open>
  Claim C5 fails on the code in a run with the same defect as in C2: both files are
  selected and read, the flush that \<open>b.ts\<close> triggers raises and is caught, the run
  completes, and its manifest lists \<open>a.ts\<close> only. Without such an error the claim holds:
  \<open>manifest_complete\<close> and \<open>manifest_counts\<close>.
\<close>

theorem read_file_missing_from_manifest:
  "filter (readable flaky_env) (sorted_files small_flattener flaky_env) = [''/p/a.ts'', ''/p/b.ts'']
   \<and> (case flatten small_flattener flaky_env of
        Inl r \<Rightarrow> False
      | Inr res \<Rightarrow>
          concat (map snd (chunks res)) = [''a.ts'']
          \<and> (case map_of (written (disk res)) (manifest_path small_flattener) of
                Some (Json m) \<Rightarrow> concat (map (\<lambda>(n, entry). files entry) (manifest_chunks m)) = [''a.ts'']
              | _ \<Rightarrow> False))"
  by code_simp

end
